theory Spec2Isabelle
  imports Main "HOL-Library.Log_Nat" "HOL-Library.Multiset"
begin

section \<open>Host strings\<close>

text \<open>
  A JavaScript string is a sequence of UTF-16 code units.  The model covers the strings
  whose code units are below 256 (Basic Latin and Latin-1 Supplement), one \<^typ>\<open>char\<close>
  per code unit.  On that range \<^verbatim>\<open>String.prototype.trim\<close> strips the code units
  9 to 13, 32 and 160, and \<^verbatim>\<open>String.prototype.toLowerCase\<close> adds 32 to the code units
  65 to 90, 192 to 214 and 216 to 222 and leaves every other one alone.  A string that
  the program only stores and shows (the Chinese hint of a word) is never inspected
  below.
\<close>

definition code_unit :: "char \<Rightarrow> nat" where
  "code_unit c = of_char c"

definition isWhiteSpace :: "char \<Rightarrow> bool" where
  "isWhiteSpace c = (let n = code_unit c in (9 \<le> n \<and> n \<le> 13) \<or> n = 32 \<or> n = 160)"

definition isUpperCase :: "char \<Rightarrow> bool" where
  "isUpperCase c = (let n = code_unit c in
     (65 \<le> n \<and> n \<le> 90) \<or> (192 \<le> n \<and> n \<le> 214) \<or> (216 \<le> n \<and> n \<le> 222))"

definition lowerChar :: "char \<Rightarrow> char" where
  "lowerChar c = (if isUpperCase c then char_of (code_unit c + 32) else c)"

definition toLowerCase :: "string \<Rightarrow> string" where
  "toLowerCase s = map lowerChar s"

definition trim :: "string \<Rightarrow> string" where
  "trim s = rev (dropWhile isWhiteSpace (rev (dropWhile isWhiteSpace s)))"



text \<open>The character class \<^verbatim>\<open>[a-zA-Z]\<close> and the global replacement
  \<^verbatim>\<open>replace(/[^a-zA-Z]/g, '')\<close>, which scans the string from left to right and drops
  every code unit outside the class.\<close>

definition isAsciiLetter :: "char \<Rightarrow> bool" where
  "isAsciiLetter c = (let n = code_unit c in (97 \<le> n \<and> n \<le> 122) \<or> (65 \<le> n \<and> n \<le> 90))"

fun replaceNonLetters :: "string \<Rightarrow> string" where
  "replaceNonLetters [] = []"
| "replaceNonLetters (c # cs) =
     (if isAsciiLetter c then c # replaceNonLetters cs else replaceNonLetters cs)"

section \<open>Host numbers\<close>

text \<open>
  A JavaScript number is an IEEE 754 binary64 value.  The finite ones are modelled by the
  rationals they denote; \<open>fl\<close> rounds a rational to the nearest value with a 53-bit
  significand, ties to the even significand, which is what every arithmetic operation of
  the host does to its exact result.  The exponent range is not bounded in the model: it
  is exact for magnitudes between \<open>2 powi (-1022)\<close> and \<open>2 powi 1024\<close>, and the program
  below only meets quotients of two array lengths and their products with 100.
\<close>

definition expo :: "rat \<Rightarrow> int" where
  "expo q = (let (a, b) = quotient_of q; d = bitlen a - bitlen b in
     if 2 powi d \<le> q then d else d - 1)"

definition roundTiesToEven :: "rat \<Rightarrow> int" where
  "roundTiesToEven m = (let f = \<lfloor>m\<rfloor>; r = m - of_int f in
     if r < 1/2 then f else if 1/2 < r then f + 1 else if even f then f else f + 1)"

definition fl :: "rat \<Rightarrow> rat" where
  "fl q = (if q = 0 then 0 else
     let u = 2 powi (expo \<bar>q\<bar> - 52) in of_int (roundTiesToEven (q / u)) * u)"

datatype number = NaN | PosInf | Fin rat

text \<open>\<^verbatim>\<open>a / b\<close> for two array lengths: \<^verbatim>\<open>0 / 0\<close> is \<^verbatim>\<open>NaN\<close>, a positive length
  over \<^verbatim>\<open>0\<close> is \<^verbatim>\<open>Infinity\<close>.\<close>

definition js_div :: "nat \<Rightarrow> nat \<Rightarrow> number" where
  "js_div a b = (if b = 0 then (if a = 0 then NaN else PosInf)
     else Fin (fl (of_nat a / of_nat b)))"

text \<open>\<^verbatim>\<open>x * 100\<close>.\<close>

fun js_times100 :: "number \<Rightarrow> number" where
  "js_times100 NaN = NaN"
| "js_times100 PosInf = PosInf"
| "js_times100 (Fin x) = Fin (fl (x * 100))"

text \<open>\<^verbatim>\<open>Math.round\<close>: the nearest integer, a tie going towards positive infinity;
  \<^verbatim>\<open>NaN\<close> and \<^verbatim>\<open>Infinity\<close> are returned as they are.\<close>

fun Math_round :: "number \<Rightarrow> number" where
  "Math_round NaN = NaN"
| "Math_round PosInf = PosInf"
| "Math_round (Fin x) = Fin (of_int \<lfloor>x + 1/2\<rfloor>)"

text \<open>\<^verbatim>\<open>x === 100\<close> and \<^verbatim>\<open>x < 80\<close>: every comparison with \<^verbatim>\<open>NaN\<close> is false.\<close>

fun js_eq100 :: "number \<Rightarrow> bool" where
  "js_eq100 (Fin x) = (x = 100)"
| "js_eq100 _ = False"

fun js_less80 :: "number \<Rightarrow> bool" where
  "js_less80 (Fin x) = (x < 80)"
| "js_less80 _ = False"

section \<open>types.ts\<close>

record VocabWord =
  id_w :: string
  team :: string
  lesson :: string
  english :: string
  chinese :: string

record QuizResult =
  word :: VocabWord
  userAnswer :: string
  isCorrect :: bool

datatype AppScreen = SELECTION | QUIZ | RESULT

datatype VoiceGender = Male | Female

section \<open>ResultScreen\<close>

definition correctCount :: "QuizResult list \<Rightarrow> nat" where
  "correctCount rs = length (filter isCorrect rs)"

definition total :: "QuizResult list \<Rightarrow> nat" where
  "total rs = length rs"

definition percentage :: "QuizResult list \<Rightarrow> number" where
  "percentage rs = Math_round (js_times100 (js_div (correctCount rs) (total rs)))"

definition isPerfect :: "QuizResult list \<Rightarrow> bool" where
  "isPerfect rs = js_eq100 (percentage rs)"

definition isBad :: "QuizResult list \<Rightarrow> bool" where
  "isBad rs = js_less80 (percentage rs)"

text \<open>The three presentations of the score card: the trophy when \<open>isPerfect\<close>, else the
  frown when \<open>isBad\<close>, else the star.\<close>

datatype outcome = Perfect | Poor | Normal

definition outcomeClass :: "QuizResult list \<Rightarrow> outcome" where
  "outcomeClass rs = (if isPerfect rs then Perfect else if isBad rs then Poor else Normal)"

section \<open>utils/speech.ts\<close>








section \<open>Array.prototype.sort with the random comparator\<close>

text \<open>
  The quiz order is \<^verbatim>\<open>[...words].sort(() => Math.random() - 0.5)\<close>.  The sort is the
  host's; it is modelled as the insertion sort of a copy of the array: each element in
  turn is moved left past the elements of the sorted prefix for which the comparator
  answers a positive number, and stops at the first other answer.  The comparator ignores
  its arguments, so its answers are a sequence of their own: \<open>rnd k\<close> is what the
  \<open>k\<close>-th call of \<^verbatim>\<open>Math.random\<close> returns, and the counter of calls is threaded
  through the sort.  The sorted prefix is kept with its last element first.
\<close>

definition comparefn :: "(nat \<Rightarrow> rat) \<Rightarrow> nat \<Rightarrow> rat" where
  "comparefn rnd k = rnd k - 1/2"

fun insertElement :: "(nat \<Rightarrow> rat) \<Rightarrow> nat \<Rightarrow> 'a \<Rightarrow> 'a list \<Rightarrow> 'a list \<times> nat" where
  "insertElement rnd k element [] = ([element], k)"
| "insertElement rnd k element (tmp # prefix) =
     (if 0 < comparefn rnd k
      then (let (prefix', k') = insertElement rnd (Suc k) element prefix in (tmp # prefix', k'))
      else (element # tmp # prefix, Suc k))"

fun insertionSort :: "(nat \<Rightarrow> rat) \<Rightarrow> nat \<Rightarrow> 'a list \<Rightarrow> 'a list \<Rightarrow> 'a list" where
  "insertionSort rnd k prefix [] = rev prefix"
| "insertionSort rnd k prefix (element # rest) =
     (let (prefix', k') = insertElement rnd k element prefix in insertionSort rnd k' prefix' rest)"

definition array_sort :: "(nat \<Rightarrow> rat) \<Rightarrow> 'a list \<Rightarrow> 'a list" where
  "array_sort rnd xs = insertionSort rnd 0 [] xs"

section \<open>QuizScreen\<close>

datatype FeedbackState = Idle | Correct | Wrong

datatype error = TypeError

text \<open>
  The state of one mounted \<^verbatim>\<open>QuizScreen\<close>: its \<^verbatim>\<open>useState\<close> cells and its two
  refs (\<open>recognitionRef\<close> records whether the ref holds a recognition object).  Sound
  effects, speech output and input focus change none of these and are left out, and
  with them the props that only they read (the voice gender and URI).
\<close>

record QuizScreen =
  shuffledWords :: "VocabWord list"
  currentIndex :: nat
  userInput :: string
  results :: "QuizResult list"
  feedback :: FeedbackState
  isListening :: bool
  speechRate :: rat
  startTimeRef :: int
  recognitionRef :: bool

text \<open>\<^verbatim>\<open>shuffledWords[currentIndex]\<close> is \<^verbatim>\<open>undefined\<close> out of range.\<close>

definition currentWord :: "QuizScreen \<Rightarrow> VocabWord option" where
  "currentWord q = (if currentIndex q < length (shuffledWords q)
     then Some (shuffledWords q ! currentIndex q) else None)"

text \<open>
  Rendering reads \<^verbatim>\<open>currentWord.id\<close>, which throws when there is no current word, so
  a \<^verbatim>\<open>QuizScreen\<close> given no words fails to mount.  \<open>now\<close> is \<^verbatim>\<open>Date.now()\<close> at
  the first render.
\<close>

definition mountQuizScreen :: "VocabWord list \<Rightarrow> (nat \<Rightarrow> rat) \<Rightarrow> int \<Rightarrow> error + QuizScreen" where
  "mountQuizScreen ws rnd now =
     (let q = \<lparr>shuffledWords = array_sort rnd ws, currentIndex = 0, userInput = [],
                results = [], feedback = Idle, isListening = False, speechRate = 4/5,
                startTimeRef = now, recognitionRef = False\<rparr>
      in if currentWord q = None then Inl TypeError else Inr q)"

definition stopListening :: "QuizScreen \<Rightarrow> QuizScreen" where
  "stopListening q = q\<lparr>recognitionRef := False, isListening := False\<rparr>"

text \<open>\<open>supported\<close>: the window has a \<^verbatim>\<open>SpeechRecognition\<close> constructor.  The
  recognition starts asynchronously; its \<^verbatim>\<open>onstart\<close> callback sets \<open>isListening\<close>.\<close>

definition startListening :: "bool \<Rightarrow> QuizScreen \<Rightarrow> QuizScreen" where
  "startListening supported q = (if \<not> supported then q else q\<lparr>recognitionRef := True\<rparr>)"

definition toggleListening :: "bool \<Rightarrow> QuizScreen \<Rightarrow> QuizScreen" where
  "toggleListening supported q =
     (if isListening q then stopListening q else startListening supported q)"

text \<open>
  The \<^verbatim>\<open>onresult\<close> callback.  \<open>transcripts\<close> lists \<^verbatim>\<open>event.results[i][0].transcript\<close>
  for every \<open>i\<close>; the loop appends them by index to \<^verbatim>\<open>finalTranscript\<close>.
\<close>

definition finalTranscript :: "string list \<Rightarrow> string" where
  "finalTranscript transcripts =
     foldl (\<lambda>acc i. acc @ transcripts ! i) [] [0..<length transcripts]"

definition cleanedInput :: "string list \<Rightarrow> string" where
  "cleanedInput transcripts = toLowerCase (replaceNonLetters (finalTranscript transcripts))"

definition onresult :: "string list \<Rightarrow> QuizScreen \<Rightarrow> QuizScreen" where
  "onresult transcripts q = q\<lparr>userInput := cleanedInput transcripts\<rparr>"

text \<open>
  What the callback given to \<^verbatim>\<open>setTimeout\<close> by \<^verbatim>\<open>handleSubmit\<close> closes over: the
  instance that owns it and the values of that render.
\<close>

record pending =
  owner :: nat
  cIndex :: nat
  cLength :: nat
  cResults :: "QuizResult list"
  cNewResult :: QuizResult
  cStartTime :: int

text \<open>\<open>handleSubmit\<close> returns the new state and the timeout it has set, if any; \<open>inst\<close>
  identifies the mounted instance.\<close>

definition handleSubmit :: "nat \<Rightarrow> QuizScreen \<Rightarrow> error + (QuizScreen \<times> pending option)" where
  "handleSubmit inst q =
     (if feedback q \<noteq> Idle then Inr (q, None)
      else case currentWord q of
        None \<Rightarrow> Inl TypeError
      | Some w \<Rightarrow>
          let normalizedInput = toLowerCase (trim (userInput q));
              normalizedTarget = toLowerCase (trim (english w));
              ok = (normalizedInput = normalizedTarget);
              newResult = \<lparr>word = w, userAnswer = userInput q, isCorrect = ok\<rparr>
          in Inr ((stopListening q)\<lparr>feedback := (if ok then Correct else Wrong),
                                     results := results q @ [newResult]\<rparr>,
                  Some \<lparr>owner = inst, cIndex = currentIndex q,
                        cLength = length (shuffledWords q), cResults = results q,
                        cNewResult = newResult, cStartTime = startTimeRef q\<rparr>))"

text \<open>The first branch of the timeout's callback, followed by the cleanup of the effect
  that depends on \<open>currentIndex\<close>.\<close>

definition nextWord :: "QuizScreen \<Rightarrow> QuizScreen" where
  "nextWord q = stopListening (q\<lparr>feedback := Idle, userInput := [],
                                 currentIndex := currentIndex q + 1\<rparr>)"

section \<open>SelectionScreen\<close>

text \<open>The parts of the selection screen's state that \<open>handleStart\<close> reads;
  \<open>availableWords\<close> comes from the vocabulary table, which is data.\<close>

record SelectionScreen =
  availableWords :: "VocabWord list"
  checkedWords :: "string list"
  selGender :: VoiceGender
  selectedMaleVoiceURI :: string

definition wordsToQuiz :: "SelectionScreen \<Rightarrow> VocabWord list" where
  "wordsToQuiz sel = filter (\<lambda>w. id_w w \<in> set (checkedWords sel)) (availableWords sel)"

text \<open>The arguments \<open>handleStart\<close> passes to \<^verbatim>\<open>onStartQuiz\<close>, or \<open>None\<close> when it does
  not call it.\<close>

definition handleStart :: "SelectionScreen \<Rightarrow> (VocabWord list \<times> VoiceGender \<times> string option) option" where
  "handleStart sel =
     (if 0 < length (wordsToQuiz sel)
      then Some (wordsToQuiz sel, selGender sel,
                 if selGender sel = Male \<and> selectedMaleVoiceURI sel \<noteq> []
                 then Some (selectedMaleVoiceURI sel) else None)
      else None)"

section \<open>App\<close>

text \<open>
  The state of the application: the \<^verbatim>\<open>useState\<close> cells of \<^verbatim>\<open>App\<close>, the mounted
  \<^verbatim>\<open>QuizScreen\<close> (there is one exactly while the screen is \<open>QUIZ\<close>), the number of
  \<^verbatim>\<open>QuizScreen\<close> instances mounted so far, which identifies the mounted one, and the
  timeouts set by \<open>handleSubmit\<close> that have not fired yet, oldest first.  They all have
  the same delay, so they fire in that order.  Nothing clears them: they outlive the
  instance that set them.
\<close>

record App =
  screen :: AppScreen
  selectedWords :: "VocabWord list"
  selectedGender :: VoiceGender
  selectedVoiceURI :: "string option"
  quizResults :: "QuizResult list"
  quizDuration :: int
  quizScreen :: "QuizScreen option"
  mounts :: nat
  timeouts :: "pending list"

definition initApp :: App where
  "initApp = \<lparr>screen = SELECTION, selectedWords = [], selectedGender = Female,
              selectedVoiceURI = None, quizResults = [], quizDuration = 0,
              quizScreen = None, mounts = 0, timeouts = []\<rparr>"

text \<open>\<open>startQuiz\<close> switches to the quiz screen, which mounts a \<^verbatim>\<open>QuizScreen\<close> on the
  selected words.\<close>

definition startQuiz ::
  "App \<Rightarrow> VocabWord list \<Rightarrow> VoiceGender \<Rightarrow> string option \<Rightarrow> (nat \<Rightarrow> rat) \<Rightarrow> int \<Rightarrow> error + App" where
  "startQuiz a ws gender uri rnd now =
     (case mountQuizScreen ws rnd now of
        Inl e \<Rightarrow> Inl e
      | Inr q \<Rightarrow> Inr (a\<lparr>selectedWords := ws, selectedGender := gender,
                       selectedVoiceURI := uri, screen := QUIZ,
                       quizScreen := Some q, mounts := mounts a + 1\<rparr>))"

definition finishQuiz :: "App \<Rightarrow> QuizResult list \<Rightarrow> int \<Rightarrow> App" where
  "finishQuiz a rs duration =
     a\<lparr>quizResults := rs, quizDuration := duration, screen := RESULT, quizScreen := None\<rparr>"

definition restartApp :: "App \<Rightarrow> App" where
  "restartApp a =
     a\<lparr>selectedWords := [], quizResults := [], quizDuration := 0, screen := SELECTION,
       quizScreen := None\<rparr>"

text \<open>
  The callback of a timeout, run at time \<open>now\<close>.  Its first branch sets state of the
  instance that owns it, which does nothing once that instance is unmounted; its second
  branch calls \<^verbatim>\<open>onFinish\<close>, which is \<open>finishQuiz\<close> and sets state of \<^verbatim>\<open>App\<close>.
\<close>

definition fireTimeout :: "App \<Rightarrow> pending \<Rightarrow> int \<Rightarrow> App" where
  "fireTimeout a t now =
     (if int (cIndex t) < int (cLength t) - 1
      then (case quizScreen a of
              None \<Rightarrow> a
            | Some q \<Rightarrow> if owner t = mounts a then a\<lparr>quizScreen := Some (nextWord q)\<rparr> else a)
      else finishQuiz a (cResults t @ [cNewResult t]) ((now - cStartTime t) div 1000))"

text \<open>An update of the state of the mounted \<^verbatim>\<open>QuizScreen\<close>; nothing when none is
  mounted.\<close>

definition onQuizScreen :: "(QuizScreen \<Rightarrow> QuizScreen) \<Rightarrow> App \<Rightarrow> App" where
  "onQuizScreen f a = (case quizScreen a of None \<Rightarrow> a | Some q \<Rightarrow> a\<lparr>quizScreen := Some (f q)\<rparr>)"

text \<open>
  The events of the application.  \<open>Start\<close> is a click on the start button, with the
  selection screen's state, the answers of \<^verbatim>\<open>Math.random\<close> and the time; \<open>Change\<close> is
  the input field's \<^verbatim>\<open>onChange\<close>; \<open>Submit\<close> is a call of \<open>handleSubmit\<close>; \<open>Timeout\<close>
  is the oldest pending timeout firing at the given time; \<open>Exit\<close> and \<open>Restart\<close> are the
  exit button of the quiz and the restart button of the result screen; the others are the
  microphone button, the four callbacks of the speech recognition and the speed buttons.
  A handler runs whenever its component is mounted: the \<^verbatim>\<open>disabled\<close> attributes of the
  form are not modelled, so the model allows more event sequences than the browser does.
  Each event is handled on the state the previous one has left: the components are
  rendered again between two events, so a handler never reads the state of an older
  render; only the callback of a timeout keeps the values of the render that set it.
\<close>

datatype event =
    Start SelectionScreen "nat \<Rightarrow> rat" int
  | Change string
  | Submit
  | Timeout int
  | Exit
  | Restart
  | ToggleListening bool
  | RecognitionStart
  | RecognitionEnd
  | RecognitionError
  | RecognitionResult "string list"
  | Speed rat

fun step :: "App \<Rightarrow> event \<Rightarrow> error + App" where
  "step a (Start sel rnd now) =
     (if screen a \<noteq> SELECTION then Inr a
      else case handleStart sel of
        None \<Rightarrow> Inr a
      | Some (ws, gender, uri) \<Rightarrow> startQuiz a ws gender uri rnd now)"
| "step a (Change s) = Inr (onQuizScreen (\<lambda>q. q\<lparr>userInput := s\<rparr>) a)"
| "step a Submit =
     (case quizScreen a of
        None \<Rightarrow> Inr a
      | Some q \<Rightarrow>
          (case handleSubmit (mounts a) q of
             Inl e \<Rightarrow> Inl e
           | Inr (q', t) \<Rightarrow>
               Inr (a\<lparr>quizScreen := Some q',
                      timeouts := timeouts a @ (case t of None \<Rightarrow> [] | Some t' \<Rightarrow> [t'])\<rparr>)))"
| "step a (Timeout now) =
     (case timeouts a of
        [] \<Rightarrow> Inr a
      | t # ts \<Rightarrow> Inr (fireTimeout (a\<lparr>timeouts := ts\<rparr>) t now))"
| "step a Exit = Inr (if quizScreen a = None then a else restartApp a)"
| "step a Restart = Inr (if screen a = RESULT then restartApp a else a)"
| "step a (ToggleListening supported) = Inr (onQuizScreen (toggleListening supported) a)"
| "step a RecognitionStart = Inr (onQuizScreen (\<lambda>q. q\<lparr>isListening := True\<rparr>) a)"
| "step a RecognitionEnd = Inr (onQuizScreen (\<lambda>q. q\<lparr>isListening := False\<rparr>) a)"
| "step a RecognitionError = Inr (onQuizScreen (\<lambda>q. q\<lparr>isListening := False\<rparr>) a)"
| "step a (RecognitionResult transcripts) = Inr (onQuizScreen (onresult transcripts) a)"
| "step a (Speed r) = Inr (onQuizScreen (\<lambda>q. q\<lparr>speechRate := r\<rparr>) a)"

fun run :: "App \<Rightarrow> event list \<Rightarrow> error + App" where
  "run a [] = Inr a"
| "run a (e # es) = (case step a e of Inl x \<Rightarrow> Inl x | Inr a' \<Rightarrow> run a' es)"

text \<open>The own timeouts of the mounted instance.\<close>

definition ownTimeouts :: "App \<Rightarrow> pending list" where
  "ownTimeouts a = filter (\<lambda>t. owner t = mounts a) (timeouts a)"

text \<open>
  The invariant of the application: a \<^verbatim>\<open>QuizScreen\<close> is mounted exactly on the quiz
  screen; no timeout belongs to a later instance than the mounted one; the mounted
  instance has a current word; while it awaits an answer it has recorded one result per
  earlier word and has no timeout pending; while it shows feedback it has also recorded
  the current word's result and has one timeout pending, set at the current word.
\<close>

definition quizInv :: "App \<Rightarrow> QuizScreen \<Rightarrow> bool" where
  "quizInv a q =
     (currentIndex q < length (shuffledWords q) \<and>
      mset (shuffledWords q) = mset (selectedWords a) \<and>
      (if feedback q = Idle
       then length (results q) = currentIndex q \<and> ownTimeouts a = []
       else length (results q) = currentIndex q + 1 \<and>
            (\<exists>t. ownTimeouts a = [t] \<and> cIndex t = currentIndex q \<and>
                 cLength t = length (shuffledWords q))))"

definition appInv :: "App \<Rightarrow> bool" where
  "appInv a =
     ((screen a = QUIZ) = (quizScreen a \<noteq> None) \<and>
      list_all (\<lambda>t. owner t \<le> mounts a) (timeouts a) \<and>
      (case quizScreen a of None \<Rightarrow> True | Some q \<Rightarrow> quizInv a q))"

section \<open>Submission\<close>

lemma trim_lower_Apple: "toLowerCase (trim '' Apple '') = ''apple''"
  by code_simp

lemma trim_lower_apple: "toLowerCase (trim ''apple'') = ''apple''"
  by code_simp

lemma trim_lower_appel: "toLowerCase (trim ''appel'') = ''appel''"
  by code_simp

text \<open>
  C1.  A submission while the feedback is \<open>Idle\<close> and there is a current word succeeds; it
  appends one result, for the current word, with the input as typed, whose \<open>isCorrect\<close>
  is the equality of the input, trimmed and lowercased, with the word's English text,
  trimmed and lowercased; the feedback becomes \<open>Correct\<close> or \<open>Wrong\<close> accordingly.  The
  input \<^verbatim>\<open>" Apple "\<close> against \<^verbatim>\<open>"apple"\<close> is recorded as correct, the input
  \<^verbatim>\<open>"appel"\<close> as wrong.
\<close>

theorem handleSubmit_isCorrect:
  assumes "feedback q = Idle" and "currentWord q = Some w"
  shows "\<exists>q' t. handleSubmit inst q = Inr (q', Some t) \<and>
           results q' = results q @
             [\<lparr>word = w, userAnswer = userInput q,
               isCorrect = (toLowerCase (trim (userInput q)) = toLowerCase (trim (english w)))\<rparr>] \<and>
           feedback q' = (if toLowerCase (trim (userInput q)) = toLowerCase (trim (english w))
                          then Correct else Wrong) \<and>
           (userInput q = '' Apple '' \<and> english w = ''apple'' \<longrightarrow> isCorrect (last (results q'))) \<and>
           (userInput q = ''appel'' \<and> english w = ''apple'' \<longrightarrow> \<not> isCorrect (last (results q')))"
  using assms
  by (auto simp: handleSubmit_def Let_def stopListening_def trim_lower_Apple trim_lower_apple
        trim_lower_appel)

theorem handleSubmit_isCorrect_witness:
  "\<exists>q' t. handleSubmit 1
       \<lparr>shuffledWords = [\<lparr>id_w = ''1'', team = ''T'', lesson = ''L'', english = ''apple'',
                          chinese = ''x''\<rparr>],
        currentIndex = 0, userInput = '' Apple '', results = [], feedback = Idle,
        isListening = False, speechRate = 4/5, startTimeRef = 0, recognitionRef = False\<rparr>
       = Inr (q', Some t) \<and> map isCorrect (results q') = [True] \<and> feedback q' = Correct"
proof -
  let ?w = "\<lparr>id_w = ''1'', team = ''T'', lesson = ''L'', english = ''apple'', chinese = ''x''\<rparr>"
  let ?q = "\<lparr>shuffledWords = [?w],
        currentIndex = 0, userInput = '' Apple '', results = [], feedback = Idle,
        isListening = False, speechRate = 4/5, startTimeRef = 0, recognitionRef = False\<rparr>"
  have 1: "feedback ?q = Idle" by simp
  have 2: "currentWord ?q = Some ?w" by (simp add: currentWord_def)
  from handleSubmit_isCorrect [OF 1 2, of 1] show ?thesis
    by (auto simp: trim_lower_Apple trim_lower_apple)
qed

lemma handleSubmit_ignored: "feedback q \<noteq> Idle \<Longrightarrow> handleSubmit inst q = Inr (q, None)"
  by (simp add: handleSubmit_def)

lemma step_Submit_ignored:
  "quizScreen a = Some q \<Longrightarrow> feedback q \<noteq> Idle \<Longrightarrow> step a Submit = Inr a"
  by (simp add: handleSubmit_ignored)

text \<open>
  C5.  While the mounted quiz shows feedback, \<open>handleSubmit\<close> returns without an error,
  with the state as it was and no timeout set, and any number of submissions in a row
  leave the whole application state, the results and the pending timeouts included, as
  it was.
\<close>

theorem submit_ignored_outside_Idle:
  assumes "quizScreen a = Some q" and "feedback q \<noteq> Idle"
  shows "handleSubmit (mounts a) q = Inr (q, None) \<and> run a (replicate n Submit) = Inr a"
proof
  show "handleSubmit (mounts a) q = Inr (q, None)"
    using assms by (simp add: handleSubmit_ignored)
  show "run a (replicate n Submit) = Inr a"
    by (induction n) (simp_all add: step_Submit_ignored [OF assms] del: step.simps)
qed

section \<open>Dictation\<close>

lemma replaceNonLetters_filter: "replaceNonLetters s = filter isAsciiLetter s"
  by (induction s) simp_all

lemma foldl_append_nth:
  "n \<le> length xs \<Longrightarrow> foldl (\<lambda>acc i. acc @ xs ! i) [] [0..<n] = concat (take n xs)"
  by (induction n) (simp_all add: take_Suc_conv_app_nth)

lemma finalTranscript_concat: "finalTranscript ts = concat ts"
  by (simp add: finalTranscript_def foldl_append_nth)

lemma cleanedInput_APPLE: "cleanedInput [''A '', ''P P'', ''LE!''] = ''apple''"
  by code_simp

text \<open>
  C8.  After the \<^verbatim>\<open>onresult\<close> callback the input is the concatenation of all the
  transcripts of the event, in order, without the characters that are not letters of the
  English alphabet (\<^verbatim>\<open>a\<close> to \<^verbatim>\<open>z\<close>, \<^verbatim>\<open>A\<close> to \<^verbatim>\<open>Z\<close>), lowercased.  The
  transcripts \<^verbatim>\<open>"A "\<close>, \<^verbatim>\<open>"P P"\<close>, \<^verbatim>\<open>"LE!"\<close> give \<^verbatim>\<open>"apple"\<close>.
\<close>

theorem onresult_cleans_transcript:
  "userInput (onresult transcripts q) = toLowerCase (filter isAsciiLetter (concat transcripts)) \<and>
   userInput (onresult [''A '', ''P P'', ''LE!''] q) = ''apple''"
  by (simp add: onresult_def cleanedInput_APPLE)
     (simp add: cleanedInput_def replaceNonLetters_filter finalTranscript_concat)

section \<open>The score\<close>

text \<open>
  C10.  On the empty list of results the percentage is \<^verbatim>\<open>NaN\<close>: nothing checks that
  there is a result.  Neither \<open>isPerfect\<close> nor \<open>isBad\<close> holds of it, so the score card is
  the one of the normal outcome.
\<close>

theorem empty_results_are_Normal:
  "percentage [] = NaN \<and> \<not> isPerfect [] \<and> \<not> isBad [] \<and> outcomeClass [] = Normal"
  by (simp add: percentage_def correctCount_def total_def js_div_def isPerfect_def isBad_def
        outcomeClass_def)

text \<open>The rounding of the model is the one of the format: \<open>expo\<close> is the binary
  exponent of a positive rational, and \<open>fl\<close> is within half a unit in the last place of
  its argument.\<close>

lemma bitlen_powi_bounds:
  assumes "0 < x"
  shows "(2::rat) powi (bitlen x - 1) \<le> of_int x \<and> of_int x < (2::rat) powi (bitlen x)"
proof -
  from assms have b1: "1 \<le> bitlen x" by (auto simp: bitlen_alt_def)
  from bitlen_bounds [OF assms] have lo: "2 ^ nat (bitlen x - 1) \<le> x" and hi: "x < 2 ^ nat (bitlen x)"
    by simp_all
  from lo have "(of_int (2 ^ nat (bitlen x - 1)) :: rat) \<le> of_int x"
    by (simp only: of_int_le_iff)
  moreover from hi have "(of_int x :: rat) < of_int (2 ^ nat (bitlen x))"
    by (simp only: of_int_less_iff)
  ultimately show ?thesis using b1 by (simp add: power_int_def)
qed

lemma expo_bounds:
  assumes "0 < q"
  shows "2 powi (expo q) \<le> q \<and> q < 2 powi (expo q + 1)"
proof -
  obtain a b where ab: "quotient_of q = (a, b)" by (cases "quotient_of q")
  then have b: "0 < b" by (rule quotient_of_denom_pos)
  from ab have q: "q = of_int a / of_int b" by (rule quotient_of_div)
  with assms b have a: "0 < a" by (simp add: zero_less_divide_iff)
  let ?d = "bitlen a - bitlen b"
  from bitlen_powi_bounds [OF a] have a1: "(2::rat) powi (bitlen a - 1) \<le> of_int a"
    and a2: "of_int a < (2::rat) powi (bitlen a)" by simp_all
  from bitlen_powi_bounds [OF b] have b1: "(2::rat) powi (bitlen b - 1) \<le> of_int b"
    and b2: "of_int b < (2::rat) powi (bitlen b)" by simp_all
  have up: "q < 2 powi (?d + 1)"
  proof -
    have "of_int a < (2::rat) powi (?d + 1) * 2 powi (bitlen b - 1)"
      using a2 by (simp add: power_int_add [symmetric])
    also have "\<dots> \<le> 2 powi (?d + 1) * of_int b"
      using b1 by (simp add: mult_left_mono)
    finally show ?thesis using b by (simp add: q pos_divide_less_eq)
  qed
  have lo: "2 powi (?d - 1) \<le> q"
  proof -
    have "(2::rat) powi (?d - 1) * of_int b \<le> 2 powi (?d - 1) * 2 powi (bitlen b)"
      using b2 by (simp add: mult_left_mono)
    also have "\<dots> = 2 powi (bitlen a - 1)"
      by (simp add: power_int_add [symmetric])
    also have "\<dots> \<le> of_int a" by (rule a1)
    finally show ?thesis using b by (simp add: q pos_le_divide_eq)
  qed
  show ?thesis
  proof (cases "2 powi ?d \<le> q")
    case True
    with ab up show ?thesis by (simp add: expo_def)
  next
    case False
    with ab lo show ?thesis by (simp add: expo_def)
  qed
qed

lemma roundTiesToEven_near: "\<bar>of_int (roundTiesToEven m) - m\<bar> \<le> 1/2"
proof -
  have "of_int \<lfloor>m\<rfloor> \<le> m" and "m < of_int \<lfloor>m\<rfloor> + 1" by linarith+
  then show ?thesis by (auto simp: roundTiesToEven_def Let_def)
qed

lemma fl_error: "\<bar>fl q - q\<bar> \<le> 2 powi (expo \<bar>q\<bar> - 53)"
proof (cases "q = 0")
  case True
  then show ?thesis by (simp add: fl_def)
next
  case False
  let ?u = "(2::rat) powi (expo \<bar>q\<bar> - 52)"
  have u: "0 < ?u" by simp
  have "fl q - q = (of_int (roundTiesToEven (q / ?u)) - q / ?u) * ?u"
    using False u by (simp add: fl_def Let_def field_simps)
  then have "\<bar>fl q - q\<bar> = \<bar>of_int (roundTiesToEven (q / ?u)) - q / ?u\<bar> * ?u"
    using u by (simp add: abs_mult)
  also have "\<dots> \<le> 1/2 * ?u"
    using roundTiesToEven_near [of "q / ?u"] u by (simp add: mult_right_mono)
  also have "\<dots> = 2 powi (expo \<bar>q\<bar> - 53)"
    by (simp add: power_int_diff)
  finally show ?thesis .
qed

lemma pct_23_40: "Math_round (js_times100 (js_div 23 40)) = Fin 57"
  by code_simp

lemma pct_1_8: "Math_round (js_times100 (js_div 1 8)) = Fin 13"
  by code_simp

lemma pct_29_200: "Math_round (js_times100 (js_div 29 200)) = Fin 14"
  by code_simp

lemma pct_1_2: "Math_round (js_times100 (js_div 1 2)) = Fin 50"
  by code_simp

text \<open>The outcome is decided by the percentage as the score card says, and one correct
  result out of two gives 50 and the poor outcome.\<close>

lemma outcomeClass_cases:
  "(outcomeClass rs = Perfect \<longleftrightarrow> percentage rs = Fin 100) \<and>
   (outcomeClass rs = Poor \<longleftrightarrow> (\<exists>x. percentage rs = Fin x \<and> x < 80)) \<and>
   (outcomeClass rs = Normal \<longleftrightarrow>
      percentage rs \<noteq> Fin 100 \<and> \<not> (\<exists>x. percentage rs = Fin x \<and> x < 80))"
  by (cases "percentage rs") (auto simp: outcomeClass_def isPerfect_def isBad_def)

lemma one_of_two:
  "percentage [\<lparr>word = w, userAnswer = a, isCorrect = False\<rparr>,
               \<lparr>word = w', userAnswer = b, isCorrect = True\<rparr>] = Fin 50 \<and>
   outcomeClass [\<lparr>word = w, userAnswer = a, isCorrect = False\<rparr>,
                 \<lparr>word = w', userAnswer = b, isCorrect = True\<rparr>] = Poor"
proof -
  let ?rs = "[\<lparr>word = w, userAnswer = a, isCorrect = False\<rparr>,
              \<lparr>word = w', userAnswer = b, isCorrect = True\<rparr>]"
  have "correctCount ?rs = 1" and "total ?rs = 2"
    by (simp_all add: correctCount_def total_def)
  then have "percentage ?rs = Fin 50"
    by (simp only: percentage_def pct_1_2)
  then show ?thesis
    by (simp add: outcomeClass_def isPerfect_def isBad_def)
qed

text \<open>The two roundings of the percentage move it by less than \<open>2 powi (-45)\<close>, so
  the integer shown is never farther than one half from the exact percentage.\<close>

lemma fl_rel_error:
  assumes "0 \<le> q"
  shows "\<bar>fl q - q\<bar> \<le> q * 2 powi (-53)"
proof (cases "q = 0")
  case True
  then show ?thesis by (simp add: fl_def)
next
  case False
  with assms have pos: "0 < q" by simp
  then have "\<bar>fl q - q\<bar> \<le> 2 powi (expo q - 53)"
    using fl_error [of q] by simp
  also have "\<dots> = 2 powi (expo q) * 2 powi (-53)"
    unfolding diff_conv_add_uminus by (rule power_int_add) simp
  also have "\<dots> \<le> q * 2 powi (-53)"
    using expo_bounds [OF pos] by (intro mult_right_mono) simp_all
  finally show ?thesis .
qed

lemma percent_error:
  assumes "0 \<le> x" and "x \<le> 1"
  shows "\<bar>fl (fl x * 100) - 100 * x\<bar> \<le> 201 * 2 powi (-53)"
proof -
  define e where "e = (2::rat) powi (-53)"
  have e: "0 < e" "e \<le> 1/100" by (simp_all add: e_def power_int_minus)
  from fl_rel_error [OF assms(1)] have 1: "\<bar>fl x - x\<bar> \<le> x * e" by (simp only: e_def)
  have "x * e \<le> 1 * e" using assms e by (intro mult_right_mono) simp_all
  then have xe1: "x * e \<le> e" by simp
  have "x * e \<le> x * 1" using assms e by (intro mult_left_mono) simp_all
  then have xe2: "x * e \<le> x" by simp
  from 1 xe2 have y0: "0 \<le> fl x" by linarith
  from 1 xe1 assms have y1: "fl x \<le> 1 + e" by linarith
  from 1 xe1 have d1: "\<bar>fl x - x\<bar> \<le> e" by linarith
  from y0 have "0 \<le> fl x * 100" by simp
  from fl_rel_error [OF this] have 2: "\<bar>fl (fl x * 100) - fl x * 100\<bar> \<le> fl x * 100 * e"
    by (simp only: e_def)
  have "fl x * 100 * e \<le> (1 + e) * 100 * e"
    using y1 e by (intro mult_right_mono) simp_all
  also have "\<dots> = 100 * e + 100 * e * e" by (simp add: algebra_simps)
  also have "100 * e * e \<le> 100 * (1/100) * e"
    using e by (intro mult_right_mono mult_left_mono) simp_all
  finally have "fl x * 100 * e \<le> 101 * e" by simp
  with 2 have 3: "\<bar>fl (fl x * 100) - fl x * 100\<bar> \<le> 101 * e" by linarith
  have "fl (fl x * 100) - 100 * x = (fl (fl x * 100) - fl x * 100) + 100 * (fl x - x)"
    by (simp add: algebra_simps)
  then have "\<bar>fl (fl x * 100) - 100 * x\<bar> \<le>
      \<bar>fl (fl x * 100) - fl x * 100\<bar> + \<bar>100 * (fl x - x)\<bar>"
    by (simp only: abs_triangle_ineq)
  also have "\<bar>100 * (fl x - x)\<bar> = 100 * \<bar>fl x - x\<bar>"
    by (simp only: abs_mult; simp)
  finally have "\<bar>fl (fl x * 100) - 100 * x\<bar> \<le>
      \<bar>fl (fl x * 100) - fl x * 100\<bar> + 100 * \<bar>fl x - x\<bar>" .
  with 3 d1 have "\<bar>fl (fl x * 100) - 100 * x\<bar> \<le> 201 * e" by linarith
  then show ?thesis by (simp only: e_def)
qed

lemma percentage_nearest:
  assumes "0 < total rs" and "total rs < 2 ^ 40"
  shows "\<exists>p. percentage rs = Fin (of_int p) \<and>
           \<bar>of_int p - 100 * of_nat (correctCount rs) / of_nat (total rs)\<bar> \<le> (1/2 :: rat)"
proof -
  define c where "c = correctCount rs"
  define t where "t = total rs"
  define x :: rat where "x = of_nat c / of_nat t"
  define y where "y = fl (fl x * 100)"
  define p where "p = \<lfloor>y + 1/2\<rfloor>"
  define e where "e = 201 * (2::rat) powi (-53)"
  have ct: "c \<le> t" by (simp add: c_def t_def correctCount_def total_def)
  from assms have t: "0 < t" "t < 2 ^ 40" by (simp_all add: t_def)
  from ct t have x: "0 \<le> x" "x \<le> 1" by (simp_all add: x_def)
  from percent_error [OF x] have err: "\<bar>y - 100 * x\<bar> \<le> e" by (simp only: y_def e_def)
  have pct: "percentage rs = Fin (of_int p)"
    using t by (simp add: percentage_def js_div_def p_def y_def x_def c_def t_def)
  have fl1: "of_int p \<le> y + 1/2" and fl2: "y + 1/2 < of_int p + 1"
    unfolding p_def by linarith+
  define n :: int where "n = 2 * (p * int t - 100 * int c)"
  have nx: "of_int n = 2 * of_nat t * (of_int p - 100 * x)"
    using t by (simp add: n_def x_def field_simps)
  have et: "2 * of_nat t * e < 1"
  proof -
    have "(of_nat t :: rat) < 2 ^ 40" using t(2) by (metis of_nat_less_iff of_nat_numeral of_nat_power)
    then have "2 * of_nat t * e < 2 * 2 ^ 40 * e"
      by (simp add: e_def)
    also have "\<dots> \<le> 1" by (simp add: e_def power_int_minus)
    finally show ?thesis .
  qed
  from err fl1 fl2 have d: "\<bar>of_int p - 100 * x\<bar> \<le> 1/2 + e" by linarith
  have tpos: "(0::rat) < 2 * of_nat t" using t by simp
  have "\<bar>of_int n :: rat\<bar> = 2 * of_nat t * \<bar>of_int p - 100 * x\<bar>"
    using tpos by (simp only: nx abs_mult; simp)
  also have "\<dots> \<le> 2 * of_nat t * (1/2 + e)"
    using d tpos by (intro mult_left_mono) simp_all
  also have "\<dots> = of_nat t + 2 * of_nat t * e" by (simp add: algebra_simps)
  also have "\<dots> < of_nat t + 1" using et by simp
  finally have "\<bar>of_int n :: rat\<bar> < of_int (int t + 1)" by simp
  then have "\<bar>n\<bar> < int t + 1" by (metis of_int_abs of_int_less_iff)
  then have "\<bar>n\<bar> \<le> int t" by simp
  then have "\<bar>of_int n :: rat\<bar> \<le> of_nat t" by (metis of_int_abs of_int_le_iff of_int_of_nat_eq)
  then have "2 * of_nat t * \<bar>of_int p - 100 * x\<bar> \<le> 2 * of_nat t * (1/2 :: rat)"
    using tpos by (simp only: nx abs_mult; simp)
  then have "\<bar>of_int p - 100 * x\<bar> \<le> 1/2"
    using tpos by (simp only: mult_le_cancel_left_pos)
  with pct show ?thesis by (auto simp: x_def c_def t_def)
qed

text \<open>
  What does hold of the score of every list of at least one and fewer than \<open>2 ^ 40\<close>
  results (the length of an array is below \<open>2 ^ 32\<close>): the percentage is an integer at
  distance at most one half from 100 * correctCount / total, so it can differ from the
  rounded exact percentage only where that lies half-way between two integers; and the
  outcome is perfect exactly when the percentage is 100, poor exactly when it is below
  80, and normal otherwise.
\<close>

lemma percentage_nearest_outcome:
  assumes "0 < total rs" and "total rs < 2 ^ 40"
  shows "\<exists>p. percentage rs = Fin (of_int p) \<and>
            \<bar>of_int p - 100 * of_nat (correctCount rs) / of_nat (total rs)\<bar> \<le> (1/2 :: rat) \<and>
            (outcomeClass rs = Perfect \<longleftrightarrow> p = 100) \<and>
            (outcomeClass rs = Poor \<longleftrightarrow> p < 80) \<and>
            (outcomeClass rs = Normal \<longleftrightarrow> 80 \<le> p \<and> p \<noteq> 100)"
proof -
  from percentage_nearest [OF assms] obtain p where
    p: "percentage rs = Fin (of_int p)"
       "\<bar>of_int p - 100 * of_nat (correctCount rs) / of_nat (total rs)\<bar> \<le> (1/2 :: rat)"
    by blast
  from p(1) have "(outcomeClass rs = Perfect \<longleftrightarrow> p = 100) \<and>
            (outcomeClass rs = Poor \<longleftrightarrow> p < 80) \<and>
            (outcomeClass rs = Normal \<longleftrightarrow> 80 \<le> p \<and> p \<noteq> 100)"
    by (auto simp: outcomeClass_def isPerfect_def isBad_def)
  with p show ?thesis by blast
qed

lemma fl_115_2: "fl (115 / 2) = 115 / 2"
  by code_simp

lemma spec_order_23_40: "Math_round (js_div 2300 40) = Fin 58"
proof -
  have "(of_nat 2300 / of_nat 40 :: rat) = 115 / 2" by simp
  then have "js_div 2300 40 = Fin (115 / 2)"
    by (simp only: js_div_def fl_115_2) simp
  then show ?thesis by simp
qed

text \<open>
  C2.  With 23 correct results out of 40 the percentage shown is 57, whereas
  100 * 23 / 40 is 57.5, which rounds to 58, as \<^verbatim>\<open>Math.round\<close> itself does with a
  tie.  The code divides first: the quotient 23 / 40 is rounded to a binary64 value just
  below 0.575, and its product with 100, rounded again, is just below 57.5.  Multiplying
  first, \<^verbatim>\<open>Math.round(100 * 23 / 40)\<close>, gives 58 in the same arithmetic.
\<close>

theorem percentage_23_of_40:
  "percentage
      (replicate 23 \<lparr>word = \<lparr>id_w = ''1'', team = ''T'', lesson = ''L'', english = ''cat'',
                              chinese = ''x''\<rparr>, userAnswer = ''cat'', isCorrect = True\<rparr> @
       replicate 17 \<lparr>word = \<lparr>id_w = ''1'', team = ''T'', lesson = ''L'', english = ''cat'',
                              chinese = ''x''\<rparr>, userAnswer = ''cet'', isCorrect = False\<rparr>)
     = Fin 57 \<and>
   round (100 * 23 / 40 :: rat) = 58 \<and>
   Math_round (js_div (100 * 23) 40) = Fin 58"
proof (intro conjI)
  let ?w = "\<lparr>id_w = ''1'', team = ''T'', lesson = ''L'', english = ''cat'', chinese = ''x''\<rparr>"
  let ?rs = "replicate 23 \<lparr>word = ?w, userAnswer = ''cat'', isCorrect = True\<rparr> @
             replicate 17 \<lparr>word = ?w, userAnswer = ''cet'', isCorrect = False\<rparr>"
  have c: "correctCount ?rs = 23" and t: "total ?rs = 40"
    by (simp_all add: correctCount_def total_def)
  show "percentage ?rs = Fin 57"
    by (simp only: percentage_def c t pct_23_40)
  show "round (100 * 23 / 40 :: rat) = 58"
    by (simp add: round_def)
  have "(100 * 23 :: nat) = 2300" by simp
  then show "Math_round (js_div (100 * 23) 40) = Fin 58"
    by (simp only: spec_order_23_40)
qed

section \<open>The pitch of the utterance\<close>





section \<open>The quiz order\<close>

lemma insertElement_mset:
  "mset (fst (insertElement rnd k x xs)) = add_mset x (mset xs)"
proof (induction xs arbitrary: k)
  case Nil
  then show ?case by simp
next
  case (Cons t ts)
  obtain p' k' where ins: "insertElement rnd (Suc k) x ts = (p', k')"
    by (cases "insertElement rnd (Suc k) x ts")
  with Cons [of "Suc k"] have "mset p' = add_mset x (mset ts)"
    by simp
  with ins show ?case by simp
qed

lemma insertionSort_mset:
  "mset (insertionSort rnd k prefix rest) = mset prefix + mset rest"
proof (induction rest arbitrary: k prefix)
  case Nil
  then show ?case by simp
next
  case (Cons x rest)
  obtain p' k' where ins: "insertElement rnd k x prefix = (p', k')"
    by (cases "insertElement rnd k x prefix")
  with insertElement_mset [of rnd k x prefix] have "mset p' = add_mset x (mset prefix)"
    by simp
  with Cons ins show ?case by simp
qed

lemma array_sort_mset: "mset (array_sort rnd xs) = mset xs"
  by (simp add: array_sort_def insertionSort_mset)

lemma array_sort_length: "length (array_sort rnd xs) = length xs"
  using array_sort_mset [of rnd xs] by (metis size_mset)

lemma mountQuizScreen_nonempty:
  "ws \<noteq> [] \<Longrightarrow> \<exists>q. mountQuizScreen ws rnd now = Inr q \<and> shuffledWords q = array_sort rnd ws \<and>
     currentIndex q = 0 \<and> results q = [] \<and> feedback q = Idle"
  by (simp add: mountQuizScreen_def Let_def currentWord_def array_sort_length)

text \<open>
  C4.  A click on the start button of the selection screen with at least one checked word
  mounts a quiz whose order is a permutation of the words to quiz: the same words and the
  same ids with the same multiplicities, and as many of them, whatever the random
  comparator answers.
\<close>

theorem start_shuffles_permutation:
  assumes "screen a = SELECTION" and "wordsToQuiz sel \<noteq> []"
  shows "\<exists>a' q. step a (Start sel rnd now) = Inr a' \<and> quizScreen a' = Some q \<and>
           mset (shuffledWords q) = mset (wordsToQuiz sel) \<and>
           mset (map id_w (shuffledWords q)) = mset (map id_w (wordsToQuiz sel)) \<and>
           length (shuffledWords q) = length (wordsToQuiz sel)"
proof -
  from mountQuizScreen_nonempty [OF assms(2)] obtain q where
    q: "mountQuizScreen (wordsToQuiz sel) rnd now = Inr q"
       "shuffledWords q = array_sort rnd (wordsToQuiz sel)"
    by blast
  have "mset (map id_w (array_sort rnd (wordsToQuiz sel))) = mset (map id_w (wordsToQuiz sel))"
    using array_sort_mset [of rnd "wordsToQuiz sel"] by (metis mset_map)
  with assms q show ?thesis
    by (simp add: handleStart_def startQuiz_def array_sort_mset array_sort_length)
qed

section \<open>The invariant\<close>

lemma appInv_initApp: "appInv initApp"
  by (simp add: appInv_def initApp_def)

lemma no_later_owner:
  "list_all (\<lambda>t. owner t \<le> m) ts \<Longrightarrow> filter (\<lambda>t. owner t = Suc m) ts = []"
  by (induction ts) auto

lemma appInv_onQuizScreen:
  assumes "appInv a"
    and "\<And>q. shuffledWords (f q) = shuffledWords q \<and> currentIndex (f q) = currentIndex q \<and>
             results (f q) = results q \<and> feedback (f q) = feedback q"
  shows "appInv (onQuizScreen f a)"
  using assms(1)
  by (auto simp: appInv_def quizInv_def ownTimeouts_def onQuizScreen_def assms(2)
           split: option.splits)

lemma appInv_restartApp: "appInv a \<Longrightarrow> appInv (restartApp a)"
  by (simp add: appInv_def restartApp_def)

lemma appInv_finishQuiz: "appInv a \<Longrightarrow> appInv (finishQuiz a rs d)"
  by (simp add: appInv_def finishQuiz_def)

lemma appInv_startQuiz:
  assumes "appInv a" and "screen a = SELECTION" and "startQuiz a ws g u rnd now = Inr a'"
  shows "appInv a'"
proof -
  from assms(3) obtain q where q: "mountQuizScreen ws rnd now = Inr q"
    and a': "a' = a\<lparr>selectedWords := ws, selectedGender := g, selectedVoiceURI := u,
                    screen := QUIZ, quizScreen := Some q, mounts := mounts a + 1\<rparr>"
    by (auto simp: startQuiz_def split: sum.splits)
  from q have q': "currentWord q \<noteq> None" "shuffledWords q = array_sort rnd ws"
    "currentIndex q = 0" "results q = []" "feedback q = Idle"
    by (auto simp: mountQuizScreen_def Let_def split: if_splits)
  from assms(1) have own: "list_all (\<lambda>t. owner t \<le> mounts a) (timeouts a)"
    by (simp add: appInv_def)
  then have later: "list_all (\<lambda>t. owner t \<le> Suc (mounts a)) (timeouts a)"
    by (induction "timeouts a") (auto simp: list_all_iff)
  from q' have "currentIndex q < length (shuffledWords q)"
    by (simp add: currentWord_def split: if_splits)
  with q' a' later no_later_owner [OF own] show ?thesis
    by (simp add: appInv_def quizInv_def ownTimeouts_def array_sort_mset)
qed

lemma handleSubmit_Idle:
  assumes "feedback q = Idle" and "currentIndex q < length (shuffledWords q)"
  shows "\<exists>q' t. handleSubmit inst q = Inr (q', Some t) \<and>
           shuffledWords q' = shuffledWords q \<and> currentIndex q' = currentIndex q \<and>
           length (results q') = length (results q) + 1 \<and> feedback q' \<noteq> Idle \<and>
           owner t = inst \<and> cIndex t = currentIndex q \<and> cLength t = length (shuffledWords q)"
  using assms
  by (simp add: handleSubmit_def currentWord_def Let_def stopListening_def)

lemma appInv_Submit:
  assumes "appInv a"
  shows "\<exists>a'. step a Submit = Inr a' \<and> appInv a'"
proof (cases "quizScreen a")
  case None
  with assms show ?thesis by simp
next
  case (Some q)
  show ?thesis
  proof (cases "feedback q = Idle")
    case False
    with assms step_Submit_ignored [OF Some False] show ?thesis by (simp del: step.simps)
  next
    case True
    from assms Some have inv: "quizInv a q" and scr: "screen a = QUIZ"
      and own: "list_all (\<lambda>t. owner t \<le> mounts a) (timeouts a)"
      by (simp_all add: appInv_def)
    from inv True have idx: "currentIndex q < length (shuffledWords q)"
      and len: "length (results q) = currentIndex q" and none: "ownTimeouts a = []"
      and perm: "mset (shuffledWords q) = mset (selectedWords a)"
      by (simp_all add: quizInv_def)
    from handleSubmit_Idle [OF True idx, of "mounts a"] obtain q' t where
      h: "handleSubmit (mounts a) q = Inr (q', Some t)"
        "shuffledWords q' = shuffledWords q" "currentIndex q' = currentIndex q"
        "length (results q') = length (results q) + 1" "feedback q' \<noteq> Idle"
        "owner t = mounts a" "cIndex t = currentIndex q" "cLength t = length (shuffledWords q)"
      by blast
    let ?a' = "a\<lparr>quizScreen := Some q', timeouts := timeouts a @ [t]\<rparr>"
    from Some h have st: "step a Submit = Inr ?a'" by simp
    from none h have "ownTimeouts ?a' = [t]" by (simp add: ownTimeouts_def)
    with h idx len perm scr own have "appInv ?a'"
      by (simp add: appInv_def quizInv_def)
    with st show ?thesis by blast
  qed
qed

lemma appInv_fireTimeout:
  assumes "appInv a" and "timeouts a = t # ts"
  shows "appInv (fireTimeout (a\<lparr>timeouts := ts\<rparr>) t now)"
proof -
  let ?b = "a\<lparr>timeouts := ts\<rparr>"
  from assms have own: "list_all (\<lambda>t. owner t \<le> mounts a) ts"
    and scr: "(screen a = QUIZ) = (quizScreen a \<noteq> None)"
    by (simp_all add: appInv_def)
  show ?thesis
  proof (cases "int (cIndex t) < int (cLength t) - 1")
    case False
    have "appInv (finishQuiz ?b (cResults t @ [cNewResult t]) ((now - cStartTime t) div 1000))"
      using own by (simp add: appInv_def finishQuiz_def)
    with False show ?thesis by (simp add: fireTimeout_def)
  next
    case True
    show ?thesis
    proof (cases "quizScreen a")
      case None
      with True own scr show ?thesis by (simp add: fireTimeout_def appInv_def)
    next
      case (Some q)
      from assms(1) Some have inv: "quizInv a q" by (simp add: appInv_def)
      show ?thesis
      proof (cases "owner t = mounts a")
        case False
        then have "ownTimeouts ?b = ownTimeouts a"
          using assms(2) by (simp add: ownTimeouts_def)
        with inv have "quizInv ?b q" by (simp add: quizInv_def)
        with True False Some own scr show ?thesis
          by (simp add: fireTimeout_def appInv_def)
      next
        case mine: True
        with assms(2) have hd: "ownTimeouts a = t # filter (\<lambda>t. owner t = mounts a) ts"
          by (simp add: ownTimeouts_def)
        with inv have fb: "feedback q \<noteq> Idle" by (auto simp: quizInv_def)
        with inv hd have rest: "filter (\<lambda>t. owner t = mounts a) ts = []"
          and ci: "cIndex t = currentIndex q" and cl: "cLength t = length (shuffledWords q)"
          and len: "length (results q) = currentIndex q + 1"
          and perm: "mset (shuffledWords q) = mset (selectedWords a)"
          by (auto simp: quizInv_def)
        from True ci cl have idx: "currentIndex q + 1 < length (shuffledWords q)" by simp
        have "quizInv (?b\<lparr>quizScreen := Some (nextWord q)\<rparr>) (nextWord q)"
          using rest len perm idx
          by (simp add: quizInv_def nextWord_def stopListening_def ownTimeouts_def)
        with True mine Some own scr show ?thesis
          by (simp add: fireTimeout_def appInv_def)
      qed
    qed
  qed
qed

lemma step_appInv:
  assumes "appInv a"
  shows "\<exists>a'. step a e = Inr a' \<and> appInv a'"
proof (cases e)
  case (Start sel rnd now)
  show ?thesis
  proof (cases "screen a = SELECTION \<and> handleStart sel \<noteq> None")
    case False
    with assms Start show ?thesis by (auto split: option.splits)
  next
    case True
    then obtain ws g u where hs: "handleStart sel = Some (ws, g, u)" by auto
    then have "ws \<noteq> []" by (auto simp: handleStart_def split: if_splits)
    from mountQuizScreen_nonempty [OF this] obtain q where "mountQuizScreen ws rnd now = Inr q"
      by blast
    then obtain a' where sq: "startQuiz a ws g u rnd now = Inr a'"
      by (simp add: startQuiz_def)
    with appInv_startQuiz [OF assms _ sq] True hs Start show ?thesis by simp
  qed
next
  case (Change s)
  with appInv_onQuizScreen [OF assms, of "\<lambda>q. q\<lparr>userInput := s\<rparr>"] show ?thesis by simp
next
  case Submit
  with appInv_Submit [OF assms] show ?thesis by simp
next
  case (Timeout now)
  show ?thesis
  proof (cases "timeouts a")
    case Nil
    with assms Timeout show ?thesis by simp
  next
    case (Cons t ts)
    with appInv_fireTimeout [OF assms Cons] Timeout show ?thesis by simp
  qed
next
  case Exit
  with assms appInv_restartApp [OF assms] show ?thesis by simp
next
  case Restart
  with assms appInv_restartApp [OF assms] show ?thesis by simp
next
  case (ToggleListening supported)
  with appInv_onQuizScreen [OF assms, of "toggleListening supported"] show ?thesis
    by (simp add: toggleListening_def stopListening_def startListening_def)
next
  case RecognitionStart
  with appInv_onQuizScreen [OF assms, of "\<lambda>q. q\<lparr>isListening := True\<rparr>"] show ?thesis by simp
next
  case RecognitionEnd
  with appInv_onQuizScreen [OF assms, of "\<lambda>q. q\<lparr>isListening := False\<rparr>"] show ?thesis by simp
next
  case RecognitionError
  with appInv_onQuizScreen [OF assms, of "\<lambda>q. q\<lparr>isListening := False\<rparr>"] show ?thesis by simp
next
  case (RecognitionResult ts)
  with appInv_onQuizScreen [OF assms, of "onresult ts"] show ?thesis
    by (simp add: onresult_def)
next
  case (Speed r)
  with appInv_onQuizScreen [OF assms, of "\<lambda>q. q\<lparr>speechRate := r\<rparr>"] show ?thesis by simp
qed

lemma run_appInv: "appInv a \<Longrightarrow> \<exists>a'. run a es = Inr a' \<and> appInv a'"
proof (induction es arbitrary: a)
  case Nil
  then show ?case by simp
next
  case (Cons e es)
  from step_appInv [OF Cons.prems, of e] obtain b where b: "step a e = Inr b" "appInv b"
    by blast
  with Cons.IH [OF b(2)] show ?case by (simp del: step.simps)
qed

text \<open>No sequence of events makes the application fail.\<close>

lemma run_never_fails: "\<exists>a. run initApp es = Inr a"
  using run_appInv [OF appInv_initApp, of es] by blast

text \<open>
  C3.  In every state the application reaches from its initial state, by any sequence of
  events, in which a quiz is mounted: while the feedback is \<open>Idle\<close> there are as many
  results as the current index; while feedback is shown there is one more; and a
  submission in \<open>Idle\<close> succeeds and leads to a state that shows feedback at the same
  index, with one result more than the index.
\<close>

theorem results_length_invariant:
  assumes "run initApp es = Inr a" and "quizScreen a = Some q"
  shows "(feedback q = Idle \<longrightarrow> length (results q) = currentIndex q) \<and>
         (feedback q \<noteq> Idle \<longrightarrow> length (results q) = currentIndex q + 1) \<and>
         (feedback q = Idle \<longrightarrow>
            (\<exists>a' q'. step a Submit = Inr a' \<and> quizScreen a' = Some q' \<and> feedback q' \<noteq> Idle \<and>
               currentIndex q' = currentIndex q \<and> length (results q') = currentIndex q + 1))"
proof -
  from run_appInv [OF appInv_initApp, of es] assms(1) have inv: "appInv a" by simp
  with assms(2) have qi: "quizInv a q" by (simp add: appInv_def)
  then have 1: "feedback q = Idle \<longrightarrow> length (results q) = currentIndex q"
    and 2: "feedback q \<noteq> Idle \<longrightarrow> length (results q) = currentIndex q + 1"
    and idx: "currentIndex q < length (shuffledWords q)"
    by (simp_all add: quizInv_def)
  have 3: "\<exists>a' q'. step a Submit = Inr a' \<and> quizScreen a' = Some q' \<and> feedback q' \<noteq> Idle \<and>
               currentIndex q' = currentIndex q \<and> length (results q') = currentIndex q + 1"
    if idle: "feedback q = Idle"
  proof -
    from handleSubmit_Idle [OF idle idx, of "mounts a"] obtain q' t where
      h: "handleSubmit (mounts a) q = Inr (q', Some t)" "currentIndex q' = currentIndex q"
        "length (results q') = length (results q) + 1" "feedback q' \<noteq> Idle"
      by blast
    with assms(2) 1 idle show ?thesis by simp
  qed
  from 1 2 3 show ?thesis by blast
qed

text \<open>A quiz of two words after the first answer.\<close>

lemma trace_one_answer:
  "map_sum id (\<lambda>a. map_option (\<lambda>q. (feedback q, currentIndex q, map isCorrect (results q)))
                     (quizScreen a))
     (run initApp
       [Start \<lparr>availableWords =
                 [\<lparr>id_w = ''1'', team = ''T'', lesson = ''L'', english = ''cat'', chinese = ''x''\<rparr>,
                  \<lparr>id_w = ''2'', team = ''T'', lesson = ''L'', english = ''dog'', chinese = ''y''\<rparr>],
               checkedWords = [''1'', ''2''], selGender = Female, selectedMaleVoiceURI = []\<rparr>
          (\<lambda>k. 0) 0,
        Change ''cat'', Submit]) = Inr (Some (Correct, 0, [True]))"
  by code_simp

lemma trace_one_answer_state:
  "\<exists>a q. run initApp
       [Start \<lparr>availableWords =
                 [\<lparr>id_w = ''1'', team = ''T'', lesson = ''L'', english = ''cat'', chinese = ''x''\<rparr>,
                  \<lparr>id_w = ''2'', team = ''T'', lesson = ''L'', english = ''dog'', chinese = ''y''\<rparr>],
               checkedWords = [''1'', ''2''], selGender = Female, selectedMaleVoiceURI = []\<rparr>
          (\<lambda>k. 0) 0,
        Change ''cat'', Submit] = Inr a \<and> quizScreen a = Some q \<and> feedback q = Correct \<and>
      currentIndex q = 0"
  using trace_one_answer
  by (auto simp del: run.simps step.simps simp: map_sum_def split: sum.splits)

theorem results_length_invariant_witness:
  "\<exists>a q. run initApp
       [Start \<lparr>availableWords =
                 [\<lparr>id_w = ''1'', team = ''T'', lesson = ''L'', english = ''cat'', chinese = ''x''\<rparr>,
                  \<lparr>id_w = ''2'', team = ''T'', lesson = ''L'', english = ''dog'', chinese = ''y''\<rparr>],
               checkedWords = [''1'', ''2''], selGender = Female, selectedMaleVoiceURI = []\<rparr>
          (\<lambda>k. 0) 0,
        Change ''cat'', Submit] = Inr a \<and> quizScreen a = Some q \<and> feedback q = Correct \<and>
      currentIndex q = 0 \<and> length (results q) = 1"
proof -
  from trace_one_answer_state obtain a q where
    t: "run initApp
       [Start \<lparr>availableWords =
                 [\<lparr>id_w = ''1'', team = ''T'', lesson = ''L'', english = ''cat'', chinese = ''x''\<rparr>,
                  \<lparr>id_w = ''2'', team = ''T'', lesson = ''L'', english = ''dog'', chinese = ''y''\<rparr>],
               checkedWords = [''1'', ''2''], selGender = Female, selectedMaleVoiceURI = []\<rparr>
          (\<lambda>k. 0) 0,
        Change ''cat'', Submit] = Inr a" "quizScreen a = Some q" "feedback q = Correct"
      "currentIndex q = 0"
    by blast
  from results_length_invariant [OF t(1) t(2)] t(3) t(4) have "length (results q) = 1"
    by simp
  with t show ?thesis by blast
qed

theorem submit_ignored_outside_Idle_witness:
  "\<exists>a q. run initApp
       [Start \<lparr>availableWords =
                 [\<lparr>id_w = ''1'', team = ''T'', lesson = ''L'', english = ''cat'', chinese = ''x''\<rparr>,
                  \<lparr>id_w = ''2'', team = ''T'', lesson = ''L'', english = ''dog'', chinese = ''y''\<rparr>],
               checkedWords = [''1'', ''2''], selGender = Female, selectedMaleVoiceURI = []\<rparr>
          (\<lambda>k. 0) 0,
        Change ''cat'', Submit] = Inr a \<and> quizScreen a = Some q \<and> feedback q = Correct \<and>
      handleSubmit (mounts a) q = Inr (q, None) \<and> run a (replicate 3 Submit) = Inr a"
proof -
  from trace_one_answer_state obtain a q where
    t: "run initApp
       [Start \<lparr>availableWords =
                 [\<lparr>id_w = ''1'', team = ''T'', lesson = ''L'', english = ''cat'', chinese = ''x''\<rparr>,
                  \<lparr>id_w = ''2'', team = ''T'', lesson = ''L'', english = ''dog'', chinese = ''y''\<rparr>],
               checkedWords = [''1'', ''2''], selGender = Female, selectedMaleVoiceURI = []\<rparr>
          (\<lambda>k. 0) 0,
        Change ''cat'', Submit] = Inr a" "quizScreen a = Some q" "feedback q = Correct"
    by blast
  from t(3) have "feedback q \<noteq> Idle" by simp
  from submit_ignored_outside_Idle [OF t(2) this, of 3] t show ?thesis by blast
qed

theorem start_shuffles_permutation_witness:
  "\<exists>a' q. step initApp
       (Start \<lparr>availableWords =
                 [\<lparr>id_w = ''1'', team = ''T'', lesson = ''L'', english = ''cat'', chinese = ''x''\<rparr>,
                  \<lparr>id_w = ''2'', team = ''T'', lesson = ''L'', english = ''dog'', chinese = ''y''\<rparr>,
                  \<lparr>id_w = ''3'', team = ''T'', lesson = ''L'', english = ''pig'', chinese = ''z''\<rparr>],
               checkedWords = [''1'', ''3''], selGender = Female, selectedMaleVoiceURI = []\<rparr>
          (\<lambda>k. 3/4) 0) = Inr a' \<and> quizScreen a' = Some q \<and>
      mset (map id_w (shuffledWords q)) = {#''1'', ''3''#} \<and> length (shuffledWords q) = 2"
proof -
  let ?sel = "\<lparr>availableWords =
                 [\<lparr>id_w = ''1'', team = ''T'', lesson = ''L'', english = ''cat'', chinese = ''x''\<rparr>,
                  \<lparr>id_w = ''2'', team = ''T'', lesson = ''L'', english = ''dog'', chinese = ''y''\<rparr>,
                  \<lparr>id_w = ''3'', team = ''T'', lesson = ''L'', english = ''pig'', chinese = ''z''\<rparr>],
               checkedWords = [''1'', ''3''], selGender = Female, selectedMaleVoiceURI = []\<rparr>"
  have w: "wordsToQuiz ?sel =
      [\<lparr>id_w = ''1'', team = ''T'', lesson = ''L'', english = ''cat'', chinese = ''x''\<rparr>,
       \<lparr>id_w = ''3'', team = ''T'', lesson = ''L'', english = ''pig'', chinese = ''z''\<rparr>]"
    by (simp add: wordsToQuiz_def)
  have s: "screen initApp = SELECTION" by (simp add: initApp_def)
  have n: "wordsToQuiz ?sel \<noteq> []" by (simp add: w)
  from start_shuffles_permutation [OF s n, of "\<lambda>k. 3/4" 0] obtain a' q where
    st: "step initApp (Start ?sel (\<lambda>k. 3/4) 0) = Inr a'" "quizScreen a' = Some q"
    and m: "mset (map id_w (shuffledWords q)) = mset (map id_w (wordsToQuiz ?sel))"
    and l: "length (shuffledWords q) = length (wordsToQuiz ?sel)"
    by blast
  from m have "mset (map id_w (shuffledWords q)) = {#''1'', ''3''#}"
    by (simp add: w)
  moreover from l have "length (shuffledWords q) = 2"
    by (simp add: w)
  ultimately show ?thesis using st by blast
qed

text \<open>
  C9.  A click on the start button with no word to quiz does not call \<open>startQuiz\<close> and
  leaves the application as it is; \<open>startQuiz\<close> itself fails on the empty list, since the
  quiz cannot mount; and in every state the application reaches in which a quiz is
  mounted, the quiz order and the selected words are not empty.
\<close>

theorem empty_selection_never_starts:
  "(wordsToQuiz sel = [] \<longrightarrow> handleStart sel = None \<and> step a (Start sel rnd now) = Inr a) \<and>
   startQuiz a [] gender uri rnd now = Inl TypeError \<and>
   (run initApp es = Inr a' \<and> quizScreen a' = Some q \<longrightarrow>
      shuffledWords q \<noteq> [] \<and> selectedWords a' \<noteq> [])"
proof (intro conjI impI)
  assume "wordsToQuiz sel = []"
  then show h: "handleStart sel = None" by (simp add: handleStart_def)
  then show "step a (Start sel rnd now) = Inr a" by simp
next
  show "startQuiz a [] gender uri rnd now = Inl TypeError"
    by (simp add: startQuiz_def mountQuizScreen_def currentWord_def array_sort_def)
next
  assume r: "run initApp es = Inr a' \<and> quizScreen a' = Some q"
  with run_appInv [OF appInv_initApp, of es] have "appInv a'" by simp
  with r have "quizInv a' q" by (simp add: appInv_def)
  then have "currentIndex q < length (shuffledWords q)"
    and "mset (shuffledWords q) = mset (selectedWords a')"
    by (simp_all add: quizInv_def)
  then show "shuffledWords q \<noteq> []" and "selectedWords a' \<noteq> []" by auto
qed

theorem empty_selection_never_starts_witness:
  "wordsToQuiz \<lparr>availableWords =
                 [\<lparr>id_w = ''1'', team = ''T'', lesson = ''L'', english = ''cat'', chinese = ''x''\<rparr>],
               checkedWords = [], selGender = Female, selectedMaleVoiceURI = []\<rparr> = [] \<and>
   step initApp
       (Start \<lparr>availableWords =
                 [\<lparr>id_w = ''1'', team = ''T'', lesson = ''L'', english = ''cat'', chinese = ''x''\<rparr>],
               checkedWords = [], selGender = Female, selectedMaleVoiceURI = []\<rparr>
          (\<lambda>k. 0) 0) = Inr initApp \<and>
   screen initApp = SELECTION \<and> quizScreen initApp = None"
proof -
  let ?sel = "\<lparr>availableWords =
                 [\<lparr>id_w = ''1'', team = ''T'', lesson = ''L'', english = ''cat'', chinese = ''x''\<rparr>],
               checkedWords = [], selGender = Female, selectedMaleVoiceURI = []\<rparr>"
  have w: "wordsToQuiz ?sel = []" by (simp add: wordsToQuiz_def)
  from empty_selection_never_starts [of ?sel initApp "\<lambda>k. 0" 0] w
  have "step initApp (Start ?sel (\<lambda>k. 0) 0) = Inr initApp" by blast
  with w show ?thesis by (simp add: initApp_def del: step.simps)
qed

section \<open>Exit\<close>

text \<open>
  C6.  A quiz of one word is started, the word is answered, and the quiz is left by the
  exit button while the feedback is shown: the application is back on the selection
  screen with no results.  The timeout set by the submission is still pending; when it
  fires it calls \<open>finishQuiz\<close>, and the application shows the result screen with the
  result of the abandoned quiz.
\<close>

theorem exit_during_last_feedback:
  "map_sum id (\<lambda>a. (screen a, map isCorrect (quizResults a), quizDuration a))
     (run initApp
       [Start \<lparr>availableWords =
                 [\<lparr>id_w = ''1'', team = ''T'', lesson = ''L'', english = ''cat'', chinese = ''x''\<rparr>],
               checkedWords = [''1''], selGender = Female, selectedMaleVoiceURI = []\<rparr>
          (\<lambda>k. 0) 0,
        Change ''cat'', Submit, Exit]) = Inr (SELECTION, [], 0) \<and>
   map_sum id (\<lambda>a. (screen a, map isCorrect (quizResults a), quizDuration a))
     (run initApp
       [Start \<lparr>availableWords =
                 [\<lparr>id_w = ''1'', team = ''T'', lesson = ''L'', english = ''cat'', chinese = ''x''\<rparr>],
               checkedWords = [''1''], selGender = Female, selectedMaleVoiceURI = []\<rparr>
          (\<lambda>k. 0) 0,
        Change ''cat'', Submit, Exit, Timeout 2000]) = Inr (RESULT, [True], 2)"
  by code_simp

end
